theory Spec2Isabelle
  imports Complex_Main "HOL-Library.Log_Nat"
begin

text \<open>
  A model of \<^verbatim>\<open>venv-manager.py\<close>, the program that looks for Python virtual environments
  below a directory, reports their size, age and health, and removes broken ones. Every
  function of the program is a function here, under its own name. What the program
  takes from its surroundings is explicit: the filesystem is a value that the functions
  read and return, the clock, the subprocess and the JSON parser are fields of a
  \<open>world\<close>, and what the program prints or starts is a list of events. An exception is
  a value of type \<open>exn\<close>; a function that catches every exception has no error result.
\<close>

section \<open>Path trimming for the progress display\<close>

text \<open>
  \<^verbatim>\<open>VenvScanner.trim_path\<close> (lines 99-120 of \<^verbatim>\<open>venv-manager.py\<close>) works on the text
  of a path. A Python \<^verbatim>\<open>str\<close> is modelled as a \<open>string\<close> whose elements stand for the
  code points of the text, so that \<open>length\<close> is Python's \<^verbatim>\<open>len\<close>. The separator
  \<^verbatim>\<open>os.sep\<close> is a single character on every platform the program runs on; it is a
  parameter of the model (\<open>CHR ''/''\<close> on POSIX).
\<close>

text \<open>\<^verbatim>\<open>path_str.split(os.sep)\<close>: one part more than there are separators, never empty.\<close>

fun split_sep :: "char \<Rightarrow> string \<Rightarrow> string list" where
  "split_sep c [] = [[]]"
| "split_sep c (x # xs) =
     (if x = c then [] # split_sep c xs
      else (case split_sep c xs of [] \<Rightarrow> [[x]] | p # ps \<Rightarrow> (x # p) # ps))"

text \<open>\<^verbatim>\<open>os.sep.join(parts)\<close>.\<close>

fun join_sep :: "char \<Rightarrow> string list \<Rightarrow> string" where
  "join_sep c [] = []"
| "join_sep c [p] = p"
| "join_sep c (p # q # ps) = p @ c # join_sep c (q # ps)"

text \<open>
  The loop of lines 114-118: \<open>start\<close> grows by one part while the grown text still fits
  the budget, and the first part that does not fit ends the loop (\<^verbatim>\<open>break\<close>).
\<close>

fun pack_start :: "char \<Rightarrow> int \<Rightarrow> string \<Rightarrow> string list \<Rightarrow> string" where
  "pack_start c available_start start [] = start"
| "pack_start c available_start start (part # rest) =
     (if int (length (start @ c # part)) \<le> available_start
      then pack_start c available_start (start @ c # part) rest
      else start)"

text \<open>
  The slices are Python's: \<^verbatim>\<open>parts[-2:]\<close> is the last two parts, or all of them when
  there are fewer; \<^verbatim>\<open>parts[1:-2]\<close> is what lies between the first part and the last two.
\<close>

definition end_parts_of :: "string list \<Rightarrow> string list" where
  "end_parts_of path_parts = drop (length path_parts - 2) path_parts"

definition middle_parts_of :: "string list \<Rightarrow> string list" where
  "middle_parts_of path_parts = drop 1 (take (length path_parts - 2) path_parts)"

definition trim_path :: "char \<Rightarrow> string \<Rightarrow> int \<Rightarrow> string" where
  "trim_path c path_str max_length =
     (if int (length path_str) \<le> max_length then path_str
      else
        let path_parts = split_sep c path_str;
            end_parts = end_parts_of path_parts;
            end_len = length (join_sep c end_parts);
            available_start = max_length - int end_len - 5
        in if available_start \<le> 0 then ''...'' @ c # last end_parts
           else
             let start = pack_start c available_start (hd path_parts) (middle_parts_of path_parts)
             in start @ c # ''...'' @ c # join_sep c end_parts)"

section \<open>The filesystem\<close>

text \<open>
  The program reads and changes the filesystem through \<^verbatim>\<open>pathlib\<close> and \<^verbatim>\<open>shutil\<close>.
  The model is a snapshot of a directory tree: a regular file with its \<^verbatim>\<open>st_size\<close> and
  modification time, a directory with its entries in the order the operating system
  lists them, or a symbolic link with its target. A path is the list of its components
  from the top of the tree; a link's target is such a path as well. The state is a
  \<open>node option\<close>: \<open>None\<close> once the top directory itself has been removed.

  Access rights are not part of the snapshot: every directory can be listed and every
  entry examined. What the operating system may refuse at run time is the oracle
  \<open>io_fault\<close> of the world below. The modification time of a file is the naive local
  date \<^verbatim>\<open>datetime.fromtimestamp(st_mtime)\<close>, counted in microseconds.
\<close>

type_synonym path = "string list"

datatype node = File nat int | Dir "(string \<times> node) list" | Symlink path

text \<open>The entry at a path, read component by component without following any link.\<close>

fun phys :: "node \<Rightarrow> path \<Rightarrow> node option" where
  "phys n [] = Some n"
| "phys (Dir es) (x # xs) = (case map_of es x of None \<Rightarrow> None | Some c \<Rightarrow> phys c xs)"
| "phys _ (x # xs) = None"

definition phys_at :: "node option \<Rightarrow> path \<Rightarrow> node option" where
  "phys_at fs p = (case fs of None \<Rightarrow> None | Some r \<Rightarrow> phys r p)"

text \<open>
  Path resolution as the kernel does it: \<open>cur\<close> is the link-free location reached so
  far, a link met on the way is replaced by its target, and a walk that has followed
  \<open>maxsymlinks\<close> links fails as a loop (\<^verbatim>\<open>ELOOP\<close>).
\<close>

definition maxsymlinks :: nat where
  "maxsymlinks = 40"

fun walk :: "node option \<Rightarrow> nat \<Rightarrow> path \<Rightarrow> path \<Rightarrow> path option" where
  "walk fs fuel cur [] = Some cur"
| "walk fs fuel cur (x # xs) =
     (case phys_at fs (cur @ [x]) of
        None \<Rightarrow> None
      | Some (Symlink t) \<Rightarrow> (if fuel = 0 then None else walk fs (fuel - 1) [] (t @ xs))
      | Some _ \<Rightarrow> walk fs fuel (cur @ [x]) xs)"

text \<open>
  \<^verbatim>\<open>os.path.realpath\<close> in its non-strict mode, which \<^verbatim>\<open>Path.resolve()\<close> calls: where a
  component is missing, or the links do not end, what is left of the path is kept as
  written.
\<close>

fun realpath :: "node option \<Rightarrow> nat \<Rightarrow> path \<Rightarrow> path \<Rightarrow> path" where
  "realpath fs fuel cur [] = cur"
| "realpath fs fuel cur (x # xs) =
     (case phys_at fs (cur @ [x]) of
        None \<Rightarrow> cur @ x # xs
      | Some (Symlink t) \<Rightarrow>
          (if fuel = 0 then cur @ x # xs else realpath fs (fuel - 1) [] (t @ xs))
      | Some _ \<Rightarrow> realpath fs fuel (cur @ [x]) xs)"

definition resolve :: "node option \<Rightarrow> path \<Rightarrow> path" where
  "resolve fs p = realpath fs maxsymlinks [] p"

text \<open>\<^verbatim>\<open>os.stat\<close> follows every link of the path; \<^verbatim>\<open>os.lstat\<close> all but the last component.\<close>

definition stat :: "node option \<Rightarrow> path \<Rightarrow> node option" where
  "stat fs p = (case walk fs maxsymlinks [] p of None \<Rightarrow> None | Some q \<Rightarrow> phys_at fs q)"

definition real_location :: "node option \<Rightarrow> path \<Rightarrow> path option" where
  "real_location fs p =
     (if p = [] then Some []
      else (case walk fs maxsymlinks [] (butlast p) of
              None \<Rightarrow> None
            | Some q \<Rightarrow> Some (q @ [last p])))"

definition lstat :: "node option \<Rightarrow> path \<Rightarrow> node option" where
  "lstat fs p = (case real_location fs p of None \<Rightarrow> None | Some q \<Rightarrow> phys_at fs q)"

text \<open>\<^verbatim>\<open>Path.exists()\<close>, \<^verbatim>\<open>is_dir()\<close>, \<^verbatim>\<open>is_file()\<close>, \<^verbatim>\<open>is_symlink()\<close> and the two fields of
  \<^verbatim>\<open>Path.stat()\<close> the program reads.\<close>

definition path_exists :: "node option \<Rightarrow> path \<Rightarrow> bool" where
  "path_exists fs p = (stat fs p \<noteq> None)"

definition is_dir :: "node option \<Rightarrow> path \<Rightarrow> bool" where
  "is_dir fs p = (case stat fs p of Some (Dir es) \<Rightarrow> True | _ \<Rightarrow> False)"

definition is_file :: "node option \<Rightarrow> path \<Rightarrow> bool" where
  "is_file fs p = (case stat fs p of Some (File s m) \<Rightarrow> True | _ \<Rightarrow> False)"

definition is_symlink :: "node option \<Rightarrow> path \<Rightarrow> bool" where
  "is_symlink fs p = (case lstat fs p of Some (Symlink t) \<Rightarrow> True | _ \<Rightarrow> False)"

definition st_size :: "node option \<Rightarrow> path \<Rightarrow> nat" where
  "st_size fs p = (case stat fs p of Some (File s m) \<Rightarrow> s | _ \<Rightarrow> 0)"

definition st_mtime :: "node option \<Rightarrow> path \<Rightarrow> int" where
  "st_mtime fs p = (case stat fs p of Some (File s m) \<Rightarrow> m | _ \<Rightarrow> 0)"

text \<open>
  \<^verbatim>\<open>path.rglob('*')\<close>: every entry below the directory the path leads to, at any depth.
  A link to a directory is listed and not entered. Nothing is listed for a path that
  leads to no directory. The model lists an entry before what it contains; the order
  of a real traversal is the operating system's, and the program relies on none.
\<close>

fun entries_under :: "path \<Rightarrow> node \<Rightarrow> path list" where
  "entries_under p (Dir es) =
     concat (map (\<lambda>(n, c). (p @ [n]) # entries_under (p @ [n]) c) es)"
| "entries_under p _ = []"

definition rglob :: "node option \<Rightarrow> path \<Rightarrow> path list" where
  "rglob fs p = (case stat fs p of None \<Rightarrow> [] | Some d \<Rightarrow> entries_under p d)"

text \<open>The exceptions the program meets, as values.\<close>

datatype exn =
    OSError | FileNotFoundError | NotADirectoryError
  | CalledProcessError int | JSONDecodeError | TypeError | KeyError | ValueError

text \<open>
  \<^verbatim>\<open>shutil.rmtree\<close>: the directory at the path goes with all it holds. A path that leads
  nowhere, to a file, or whose last component is a link, raises.
\<close>

fun remove_node :: "node \<Rightarrow> path \<Rightarrow> node" where
  "remove_node (Dir es) [x] = Dir (filter (\<lambda>e. fst e \<noteq> x) es)"
| "remove_node (Dir es) (x # y # ys) =
     Dir (map (\<lambda>(k, v). if k = x then (k, remove_node v (y # ys)) else (k, v)) es)"
| "remove_node n _ = n"

fun remove_at :: "node option \<Rightarrow> path \<Rightarrow> node option" where
  "remove_at None p = None"
| "remove_at (Some r) [] = None"
| "remove_at (Some r) (x # xs) = Some (remove_node r (x # xs))"

definition rmtree :: "node option \<Rightarrow> path \<Rightarrow> exn + node option" where
  "rmtree fs p =
     (case real_location fs p of
        None \<Rightarrow> Inl FileNotFoundError
      | Some q \<Rightarrow>
          (case phys_at fs q of
             None \<Rightarrow> Inl FileNotFoundError
           | Some (File s m) \<Rightarrow> Inl NotADirectoryError
           | Some (Symlink t) \<Rightarrow> Inl OSError
           | Some (Dir es) \<Rightarrow> Inr (remove_at fs q)))"

section \<open>The world around the program\<close>

text \<open>
  What \<^verbatim>\<open>json.loads\<close> returns, and what \<^verbatim>\<open>subprocess.run\<close> does with the command
  \<^verbatim>\<open>[python_path, "-m", "pip", "list", "--format", "json"]\<close>: it raises (the interpreter
  cannot be started, the output cannot be decoded), or the process ends with a return
  code and its standard output. Only the first word of the command varies, so the
  oracle is a function of the interpreter's path.
\<close>

datatype json =
    JNull | JBool bool | JNumber rat | JString string
  | JArray "json list" | JObject "(string \<times> json) list"

datatype run_result = Raised exn | Completed int string

text \<open>
  \<open>clock w p\<close> is \<^verbatim>\<open>datetime.now()\<close>, in microseconds, as read while the directory \<open>p\<close> is
  aged. \<open>io_fault w p\<close> says that the operating system fails a call made while the size
  and age of the candidate \<open>p\<close> are computed (a permission, an entry deleted meanwhile).
  \<open>json_loads w s\<close> is \<open>None\<close> where \<^verbatim>\<open>json.loads\<close> raises.
\<close>

record world =
  filesystem :: "node option"
  platform_win32 :: bool
  clock :: "path \<Rightarrow> int"
  io_fault :: "path \<Rightarrow> bool"
  subprocess_run :: "path \<Rightarrow> run_result"
  json_loads :: "string \<Rightarrow> json option"

text \<open>
  What the program does to the outside, in order: a call of \<^verbatim>\<open>subprocess.run\<close> with the
  interpreter it names, a line on the console, a line on the standard error stream. The
  progress bar and the spinner leave no line and are left out.
\<close>

datatype message =
    Warning_no_python path
  | Error_package_list path exn
  | Warning_processing path
  | Scan_complete nat
  | Failed_to_remove path exn
  | Show_path path
  | Show_size rat
  | Show_age int
  | Venv_broken
  | Venv_ok
  | Installed_packages
  | Show_package json json
  | Removing_broken
  | Removal_done
  | Removal_failed
  | No_virtualenvs_found
  | Total_virtualenvs nat
  | Broken_virtualenvs nat
  | Total_storage rat
  | Dry_run_note
  | Scanning path
  | Looking_older_than int

datatype event = Subprocess path | Console message | Stderr message

section \<open>The scanner\<close>

text \<open>
  The dataclass \<^verbatim>\<open>VirtualEnv\<close> (lines 30-37). A Python \<^verbatim>\<open>float\<close> is modelled by the
  rational number it denotes. A package is the pair of the values under \<^verbatim>\<open>'name'\<close> and
  \<^verbatim>\<open>'version'\<close>.
\<close>

record virtual_env =
  path :: path
  size_mb :: rat
  age_days :: int
  is_broken :: bool
  packages :: "(json \<times> json) list option"

text \<open>\<^verbatim>\<open>_get_python_path\<close> (lines 50-57).\<close>

definition get_python_path :: "world \<Rightarrow> path \<Rightarrow> path" where
  "get_python_path w venv_path =
     (let python_path =
            (if platform_win32 w then venv_path @ [''Scripts'', ''python.exe'']
             else venv_path @ [''bin'', ''python''])
      in if is_symlink (filesystem w) python_path then resolve (filesystem w) python_path
         else python_path)"

text \<open>
  Line 72, \<^verbatim>\<open>[{'name': pkg['name'], 'version': pkg['version']} for pkg in packages]\<close>, on
  whatever value the output parsed to: a list yields its items, an object its keys, a
  string its characters, anything else is not iterable; only an object can be indexed
  by a string.
\<close>

fun py_iter :: "json \<Rightarrow> exn + json list" where
  "py_iter (JArray xs) = Inr xs"
| "py_iter (JObject kvs) = Inr (map (\<lambda>kv. JString (fst kv)) kvs)"
| "py_iter (JString s) = Inr (map (\<lambda>c. JString [c]) s)"
| "py_iter _ = Inl TypeError"

fun subscript :: "json \<Rightarrow> string \<Rightarrow> exn + json" where
  "subscript (JObject kvs) k = (case map_of kvs k of None \<Rightarrow> Inl KeyError | Some v \<Rightarrow> Inr v)"
| "subscript _ k = Inl TypeError"

definition package_entry :: "json \<Rightarrow> exn + (json \<times> json)" where
  "package_entry pkg =
     (case subscript pkg ''name'' of
        Inl e \<Rightarrow> Inl e
      | Inr n \<Rightarrow> (case subscript pkg ''version'' of Inl e \<Rightarrow> Inl e | Inr v \<Rightarrow> Inr (n, v)))"

fun package_entries :: "json list \<Rightarrow> exn + (json \<times> json) list" where
  "package_entries [] = Inr []"
| "package_entries (pkg # pkgs) =
     (case package_entry pkg of
        Inl e \<Rightarrow> Inl e
      | Inr x \<Rightarrow> (case package_entries pkgs of Inl e \<Rightarrow> Inl e | Inr xs \<Rightarrow> Inr (x # xs)))"

text \<open>The body of the \<^verbatim>\<open>try\<close> of lines 68-72; \<^verbatim>\<open>check=True\<close> turns a return code other
  than 0 into \<^verbatim>\<open>CalledProcessError\<close>.\<close>

definition pip_list :: "world \<Rightarrow> path \<Rightarrow> exn + (json \<times> json) list" where
  "pip_list w python_path =
     (case subprocess_run w python_path of
        Raised e \<Rightarrow> Inl e
      | Completed returncode out \<Rightarrow>
          if returncode \<noteq> 0 then Inl (CalledProcessError returncode)
          else (case json_loads w out of
                  None \<Rightarrow> Inl JSONDecodeError
                | Some pkgs \<Rightarrow>
                    (case py_iter pkgs of Inl e \<Rightarrow> Inl e | Inr items \<Rightarrow> package_entries items)))"

text \<open>
  \<^verbatim>\<open>get_venv_packages\<close> (lines 59-76), with the events it causes. \<open>vb\<close> is
  \<^verbatim>\<open>self.verbose\<close>. The \<^verbatim>\<open>except\<close> of line 73 catches every \<^verbatim>\<open>Exception\<close>, so the
  result has no error case.
\<close>

definition get_venv_packages ::
  "world \<Rightarrow> bool \<Rightarrow> path \<Rightarrow> (json \<times> json) list option \<times> event list" where
  "get_venv_packages w vb venv_path =
     (let python_path = get_python_path w venv_path
      in if \<not> path_exists (filesystem w) python_path
         then (None, if vb then [Console (Warning_no_python venv_path)] else [])
         else (case pip_list w python_path of
                 Inr pkgs \<Rightarrow> (Some pkgs, [Subprocess python_path])
               | Inl e \<Rightarrow>
                   (None, Subprocess python_path #
                            (if vb then [Console (Error_package_list venv_path e)] else []))))"

text \<open>\<^verbatim>\<open>is_virtualenv\<close> (lines 78-81).\<close>

definition venv_markers :: "path list" where
  "venv_markers =
     [[''pyvenv.cfg''], [''bin'', ''python''], [''Scripts'', ''python.exe''],
      [''Lib'', ''site-packages'']]"

definition is_virtualenv :: "node option \<Rightarrow> path \<Rightarrow> bool" where
  "is_virtualenv fs p = list_ex (\<lambda>marker. path_exists fs (p @ marker)) venv_markers"

text \<open>The generator \<^verbatim>\<open>f for f in path.rglob('*') if f.is_file()\<close> of lines 86 and 93.\<close>

definition regular_files :: "node option \<Rightarrow> path \<Rightarrow> path list" where
  "regular_files fs p = filter (is_file fs) (rglob fs p)"

text \<open>
  \<^verbatim>\<open>get_dir_size\<close> (lines 83-87). The sum is exact (Python's integers are unbounded).
  The quotient \<^verbatim>\<open>total_bytes / (1024 * 1024)\<close> is the \<^verbatim>\<open>float\<close> nearest to it: the divisor
  is a power of two, so that is the integer nearest to \<^verbatim>\<open>total_bytes\<close> with 53
  significant bits (ties to even), divided exactly.
\<close>

definition round53 :: "nat \<Rightarrow> nat" where
  "round53 n =
     (if n < 9007199254740992 then n
      else
        let e = floorlog 2 n - 53; q = n div 2 ^ e; r = n mod 2 ^ e
        in (if 2 ^ e < 2 * r \<or> (2 * r = 2 ^ e \<and> odd q) then q + 1 else q) * 2 ^ e)"

definition get_dir_size :: "node option \<Rightarrow> path \<Rightarrow> rat" where
  "get_dir_size fs p =
     (let total_bytes = sum_list (map (st_size fs) (regular_files fs p))
      in of_nat (round53 total_bytes) / (1024 * 1024))"

text \<open>
  \<^verbatim>\<open>get_dir_age_days\<close> (lines 89-97). \<^verbatim>\<open>max\<close> of nothing raises \<^verbatim>\<open>ValueError\<close>, which
  line 96 turns into the age 0. \<^verbatim>\<open>age.days\<close> of a \<^verbatim>\<open>timedelta\<close> is the floor of the
  difference in days.
\<close>

fun py_max :: "int list \<Rightarrow> exn + int" where
  "py_max [] = Inl ValueError"
| "py_max (x # xs) = Inr (fold max xs x)"

definition microseconds_per_day :: int where
  "microseconds_per_day = 86400000000"

definition get_dir_age_days :: "node option \<Rightarrow> int \<Rightarrow> path \<Rightarrow> int" where
  "get_dir_age_days fs now p =
     (case py_max (map (st_mtime fs) (regular_files fs p)) of
        Inr most_recent \<Rightarrow> (now - most_recent) div microseconds_per_day
      | Inl e \<Rightarrow> 0)"

text \<open>
  \<^verbatim>\<open>scan_virtualenvs\<close> (lines 122-174). \<open>scan_candidate\<close> is one turn of the loop of line
  148, \<open>passes_age_filter\<close> the test of line 156. A fault inside the \<^verbatim>\<open>try\<close> of line 152
  drops the candidate (line 166). The root is given by its components from the top of
  the tree, as \<^verbatim>\<open>Path(root_dir)\<close> is once it is made absolute. The progress display of line
  149 changes nothing and is left out.
\<close>

definition passes_age_filter :: "int option \<Rightarrow> int \<Rightarrow> bool" where
  "passes_age_filter older_than_days age =
     (case older_than_days of None \<Rightarrow> True | Some t \<Rightarrow> t < age)"

definition scan_candidate ::
  "world \<Rightarrow> bool \<Rightarrow> int option \<Rightarrow> path \<Rightarrow> virtual_env list \<times> event list" where
  "scan_candidate w vb older_than_days p =
     (if is_dir (filesystem w) p \<and> is_virtualenv (filesystem w) p then
        if io_fault w p then ([], if vb then [Console (Warning_processing p)] else [])
        else
          let size = get_dir_size (filesystem w) p;
              age = get_dir_age_days (filesystem w) (clock w p) p
          in if passes_age_filter older_than_days age then
               let (pkgs, evs) = get_venv_packages w vb p
               in ([\<lparr>path = p, size_mb = size, age_days = age,
                      is_broken = (pkgs = None), packages = pkgs\<rparr>], evs)
             else ([], [])
      else ([], []))"

fun scan_loop ::
  "world \<Rightarrow> bool \<Rightarrow> int option \<Rightarrow> path list \<Rightarrow> virtual_env list \<times> event list" where
  "scan_loop w vb older_than_days [] = ([], [])"
| "scan_loop w vb older_than_days (p # ps) =
     (let (v, e) = scan_candidate w vb older_than_days p;
          (vs, es) = scan_loop w vb older_than_days ps
      in (v @ vs, e @ es))"

definition scan_virtualenvs ::
  "world \<Rightarrow> bool \<Rightarrow> path \<Rightarrow> int option \<Rightarrow> virtual_env list \<times> event list" where
  "scan_virtualenvs w vb root_path older_than_days =
     (let root = resolve (filesystem w) root_path;
          dirs_to_scan = rglob (filesystem w) root;
          (venvs, evs) = scan_loop w vb older_than_days dirs_to_scan
      in (venvs, evs @ (if vb then [Console (Scan_complete (length venvs))] else [])))"

text \<open>\<^verbatim>\<open>remove_virtualenv\<close> (lines 176-184): the result, what it prints, and the filesystem
  it leaves.\<close>

definition remove_virtualenv :: "node option \<Rightarrow> path \<Rightarrow> bool \<times> event list \<times> node option" where
  "remove_virtualenv fs p =
     (case rmtree fs p of
        Inr fs' \<Rightarrow> (True, [], fs')
      | Inl e \<Rightarrow> (False, [Stderr (Failed_to_remove p e)], fs))"

section \<open>The manager\<close>

text \<open>The namespace \<^verbatim>\<open>parse_arguments\<close> returns (lines 241-250).\<close>

record args =
  root_dir :: path
  verbose :: bool
  list_packages :: bool
  older_than :: "int option"
  remove :: bool
  remove_broken :: bool

text \<open>Python's truth value of \<^verbatim>\<open>args.older_than\<close>: \<^verbatim>\<open>None\<close> and \<^verbatim>\<open>0\<close> are false.\<close>

definition truthy :: "int option \<Rightarrow> bool" where
  "truthy x = (case x of None \<Rightarrow> False | Some n \<Rightarrow> n \<noteq> 0)"

text \<open>\<^verbatim>\<open>display_venv_info\<close> (lines 192-205).\<close>

definition display_venv_info :: "virtual_env \<Rightarrow> bool \<Rightarrow> event list" where
  "display_venv_info venv show_packages =
     [Console (Show_path (path venv)), Console (Show_size (size_mb venv)),
      Console (Show_age (age_days venv))] @
     (if is_broken venv then [Console Venv_broken]
      else Console Venv_ok #
           (case packages venv of
              Some (pkg # pkgs) \<Rightarrow>
                if show_packages
                then Console Installed_packages #
                     map (\<lambda>(n, v). Console (Show_package n v)) (pkg # pkgs)
                else []
            | _ \<Rightarrow> []))"

text \<open>
  \<^verbatim>\<open>process_virtualenvs\<close> (lines 207-239); \<open>process_loop\<close> is the loop of lines 219-227,
  which passes the filesystem from one removal to the next. In the model nothing raises
  between lines 210 and 234, so the handler of line 236 has no case.
\<close>

fun process_loop ::
  "node option \<Rightarrow> args \<Rightarrow> virtual_env list \<Rightarrow> event list \<times> node option" where
  "process_loop fs a [] = ([], fs)"
| "process_loop fs a (venv # venvs) =
     (let shown = display_venv_info venv (list_packages a)
      in if is_broken venv \<and> remove_broken a then
           let (ok, evs, fs') = remove_virtualenv fs (path venv);
               (rest, fs'') = process_loop fs' a venvs
           in (shown @ [Console Removing_broken] @ evs @
                 [Console (if ok then Removal_done else Removal_failed)] @ rest, fs'')
         else
           let (rest, fs'') = process_loop fs a venvs
           in (shown @ rest, fs''))"

definition process_virtualenvs :: "world \<Rightarrow> bool \<Rightarrow> args \<Rightarrow> event list \<times> node option" where
  "process_virtualenvs w vb a =
     (let (venvs, scan_events) = scan_virtualenvs w vb (root_dir a) (older_than a)
      in if venvs = [] then (scan_events @ [Console No_virtualenvs_found], filesystem w)
         else
           let broken_count = length (filter is_broken venvs);
               total_size = sum_list (map size_mb venvs);
               (loop_events, fs') = process_loop (filesystem w) a venvs
           in (scan_events @ loop_events @
                 [Console (Total_virtualenvs (length venvs)),
                  Console (Broken_virtualenvs broken_count),
                  Console (Total_storage total_size)] @
                 (if truthy (older_than a) \<and> \<not> remove a then [Console Dry_run_note] else []),
               fs'))"

text \<open>\<^verbatim>\<open>main\<close> (lines 252-264): the scanner is made with \<^verbatim>\<open>args.verbose\<close>.\<close>

definition main :: "world \<Rightarrow> args \<Rightarrow> event list \<times> node option" where
  "main w a =
     (let intro =
            (if verbose a
             then Console (Scanning (root_dir a)) #
                  (case older_than a of
                     Some n \<Rightarrow> if n \<noteq> 0 then [Console (Looking_older_than n)] else []
                   | None \<Rightarrow> [])
             else []);
          (evs, fs') = process_virtualenvs w (verbose a) a
      in (intro @ evs, fs'))"

section \<open>Notions used to state the properties\<close>

text \<open>
  A directory lists each name once. The snapshot is a list of entries, so this is said
  apart; the properties that count entries assume it.
\<close>

fun wf_node :: "node \<Rightarrow> bool" where
  "wf_node (Dir es) = (distinct (map fst es) \<and> list_all (\<lambda>e. wf_node (snd e)) es)"
| "wf_node _ = True"

definition wf_fs :: "node option \<Rightarrow> bool" where
  "wf_fs fs = (case fs of None \<Rightarrow> True | Some r \<Rightarrow> wf_node r)"

text \<open>
  The specification's ``every regular file strictly beneath the directory, regardless of
  nesting depth'', said without the traversal: an entry is beneath \<open>p\<close> when it is reached
  from the directory \<open>p\<close> leads to through one or more names, passing only through
  directories themselves (a link to a directory is not entered). It counts as a regular
  file when \<^verbatim>\<open>is_file()\<close> says so, which holds for a link to a regular file as well
  (``symbolic links to files counted as encountered'').
\<close>

definition entries_beneath :: "node option \<Rightarrow> path \<Rightarrow> path set" where
  "entries_beneath fs p =
     {p @ rel | rel. rel \<noteq> [] \<and> (\<exists>d. stat fs p = Some d \<and> phys d rel \<noteq> None)}"

definition regular_files_beneath :: "node option \<Rightarrow> path \<Rightarrow> path set" where
  "regular_files_beneath fs p = {f \<in> entries_beneath fs p. is_file fs f}"

text \<open>
  The candidates of a scan: the entries below the resolved root that are directories,
  that \<open>is_virtualenv\<close> accepts, and whose size and age the operating system lets the
  scanner compute. \<open>kept\<close> adds the age filter of line 156.
\<close>

definition candidates :: "world \<Rightarrow> path \<Rightarrow> path list" where
  "candidates w root_path =
     filter (\<lambda>p. is_dir (filesystem w) p \<and> is_virtualenv (filesystem w) p \<and> \<not> io_fault w p)
       (rglob (filesystem w) (resolve (filesystem w) root_path))"

definition kept :: "world \<Rightarrow> int option \<Rightarrow> path \<Rightarrow> bool" where
  "kept w older p \<longleftrightarrow>
     is_dir (filesystem w) p \<and> is_virtualenv (filesystem w) p \<and> \<not> io_fault w p
     \<and> passes_age_filter older (get_dir_age_days (filesystem w) (clock w p) p)"

text \<open>The events that \<open>get_venv_packages\<close> causes, as opposed to the scanner's own.\<close>

fun from_probe :: "event \<Rightarrow> bool" where
  "from_probe (Subprocess q) = True"
| "from_probe (Console (Warning_no_python p)) = True"
| "from_probe (Console (Error_package_list p e)) = True"
| "from_probe _ = False"

text \<open>Two entries are of the same kind: the same file, the same link, or two directories.\<close>

fun same_kind :: "node \<Rightarrow> node \<Rightarrow> bool" where
  "same_kind (File s m) n = (n = File s m)"
| "same_kind (Symlink t) n = (n = Symlink t)"
| "same_kind (Dir es) n = (case n of Dir es' \<Rightarrow> True | _ \<Rightarrow> False)"

section \<open>An example world\<close>

text \<open>
  Day 100 on the clock. Under \<^verbatim>\<open>/work\<close>: \<^verbatim>\<open>fresh\<close>, an environment whose interpreter is a
  link to \<^verbatim>\<open>/usr/bin/python3\<close> and whose files are two days old; \<^verbatim>\<open>stale\<close>, an environment
  with a configuration file forty days old and no interpreter; an empty directory and a
  file. \<^verbatim>\<open>pip list\<close> succeeds and reports one package.
\<close>

definition example_fs :: "node option" where
  "example_fs = Some (Dir
     [(''usr'', Dir [(''bin'', Dir [(''python3'', File 6000000 0)])]),
      (''work'', Dir
         [(''fresh'', Dir
            [(''pyvenv.cfg'', File 100 8467200000000),
             (''bin'', Dir [(''python'', Symlink [''usr'', ''bin'', ''python3''])]),
             (''lib'', Dir [(''site.py'', File 1000 8467200000000)])]),
          (''stale'', Dir [(''pyvenv.cfg'', File 70 5184000000000)]),
          (''empty'', Dir []),
          (''notes.txt'', File 10 8640000000000)])])"

definition example_world :: world where
  "example_world =
     \<lparr>filesystem = example_fs, platform_win32 = False,
      clock = (\<lambda>p. 8640000000000), io_fault = (\<lambda>p. False),
      subprocess_run = (\<lambda>p. Completed 0 ''pip list output''),
      json_loads = (\<lambda>s. Some (JArray
         [JObject [(''name'', JString ''pip''), (''version'', JString ''24.0'')]]))\<rparr>"

definition example_args :: args where
  "example_args =
     \<lparr>root_dir = [''work''], verbose = False, list_packages = False, older_than = Some 30,
      remove = False, remove_broken = False\<rparr>"

text \<open>The same world with nothing under \<^verbatim>\<open>/work\<close>, and one where \<^verbatim>\<open>pip\<close> fails.\<close>

definition empty_world :: world where
  "empty_world = example_world\<lparr>filesystem := Some (Dir [(''work'', Dir [])])\<rparr>"

definition failing_pip_world :: world where
  "failing_pip_world = example_world\<lparr>subprocess_run := (\<lambda>p. Completed 1 [])\<rparr>"

section \<open>Properties of path trimming\<close>

lemma split_sep_not_Nil: "split_sep c s \<noteq> []"
  by (induction s) (auto split: list.splits)

lemma join_split_sep: "join_sep c (split_sep c s) = s"
proof (induction s)
  case Nil
  then show ?case by simp
next
  case (Cons x xs)
  obtain p ps where ps: "split_sep c xs = p # ps"
    using split_sep_not_Nil [of c xs] by (cases "split_sep c xs") auto
  show ?case
  proof (cases "x = c")
    case True
    with Cons ps show ?thesis by simp
  next
    case False
    with Cons ps show ?thesis by (cases ps) auto
  qed
qed

lemma trim_path_fits_unchanged:
  "int (length path_str) \<le> max_length \<Longrightarrow> trim_path c path_str max_length = path_str"
  by (simp add: trim_path_def)

lemma pack_start_bounded:
  "int (length start) \<le> available_start \<Longrightarrow>
   int (length (pack_start c available_start start parts)) \<le> available_start"
  by (induction parts arbitrary: start) auto

lemma trim_path_bounded_when_first_part_fits:
  assumes long: "max_length < int (length path_str)"
    and room: "0 < max_length - int (length (join_sep c (end_parts_of (split_sep c path_str)))) - 5"
    and first: "int (length (hd (split_sep c path_str)))
                  \<le> max_length - int (length (join_sep c (end_parts_of (split_sep c path_str)))) - 5"
  shows "int (length (trim_path c path_str max_length)) \<le> max_length"
proof -
  let ?e = "join_sep c (end_parts_of (split_sep c path_str))"
  let ?a = "max_length - int (length ?e) - 5"
  have "int (length (pack_start c ?a (hd (split_sep c path_str))
               (middle_parts_of (split_sep c path_str)))) \<le> ?a"
    using first by (rule pack_start_bounded)
  with long room show ?thesis
    by (simp add: trim_path_def Let_def)
qed

text \<open>
  Claim C3. A text within the limit comes back unchanged, and a longer one is cut to the
  limit with its last two segments kept, the single-segment fallback apart. The code keeps
  the first segment whatever its length (line 113), so a long first segment breaks the
  bound: at \<^verbatim>\<open>trim_path("projects/venv/bin", 16)\<close> the budget for the start is 3, the
  first segment has 8 characters, no fallback applies, and the result has 21 characters.
\<close>

theorem trim_path_exceeds_limit:
  "trim_path (CHR ''/'') ''projects/venv/bin'' 16 = ''projects/.../venv/bin''
   \<and> int (length (trim_path (CHR ''/'') ''projects/venv/bin'' 16)) = 21
   \<and> 0 < (16::int) - int (length (join_sep (CHR ''/'')
              (end_parts_of (split_sep (CHR ''/'') ''projects/venv/bin'')))) - 5"
  by (simp add: trim_path_def end_parts_of_def middle_parts_of_def)

section \<open>Evaluating the example world\<close>

lemmas fs_defs =
  phys_at_def stat_def lstat_def real_location_def path_exists_def is_dir_def is_file_def
  is_symlink_def st_size_def st_mtime_def resolve_def rglob_def maxsymlinks_def
  regular_files_def

lemmas scan_defs =
  scan_virtualenvs_def scan_candidate_def get_dir_size_def round53_def get_dir_age_days_def
  microseconds_per_day_def passes_age_filter_def get_venv_packages_def get_python_path_def
  pip_list_def package_entry_def is_virtualenv_def venv_markers_def Let_def

lemmas example_defs =
  example_world_def example_fs_def example_args_def empty_world_def failing_pip_world_def

lemma example_scan_older_than_30:
  "scan_virtualenvs example_world False [''work''] (Some 30) =
     ([\<lparr>path = [''work'', ''stale''], size_mb = 35 / 524288, age_days = 40,
        is_broken = True, packages = None\<rparr>], [])"
  by (simp add: example_defs fs_defs scan_defs)

lemma example_scan_older_than_1:
  "scan_virtualenvs example_world False [''work''] (Some 1) =
     ([\<lparr>path = [''work'', ''fresh''], size_mb = 1500275 / 262144, age_days = 2,
        is_broken = False, packages = Some [(JString ''pip'', JString ''24.0'')]\<rparr>,
       \<lparr>path = [''work'', ''stale''], size_mb = 35 / 524288, age_days = 40,
        is_broken = True, packages = None\<rparr>],
      [Subprocess [''usr'', ''bin'', ''python3'']])"
  by (simp add: example_defs fs_defs scan_defs)

lemma empty_scan:
  "scan_virtualenvs empty_world False [''work''] (Some 30) = ([], [])"
  by (simp add: example_defs fs_defs scan_defs)

lemma example_stale_files:
  "regular_files example_fs [''work'', ''stale''] = [[''work'', ''stale'', ''pyvenv.cfg'']]"
  by (simp add: example_defs fs_defs)

lemma example_empty_files: "regular_files example_fs [''work'', ''empty''] = []"
  by (simp add: example_defs fs_defs)

lemma example_wf: "wf_fs example_fs"
  by (simp add: example_defs wf_fs_def)

section \<open>The scan, candidate by candidate\<close>

lemma fst_scan_loop:
  "fst (scan_loop w vb older ps) = concat (map (\<lambda>p. fst (scan_candidate w vb older p)) ps)"
  by (induction ps) (auto simp: Let_def split: prod.splits)

lemma snd_scan_loop:
  "snd (scan_loop w vb older ps) = concat (map (\<lambda>p. snd (scan_candidate w vb older p)) ps)"
  by (induction ps) (auto simp: Let_def split: prod.splits)

lemma fst_scan_virtualenvs:
  "fst (scan_virtualenvs w vb root_path older) =
     concat (map (\<lambda>p. fst (scan_candidate w vb older p))
                 (rglob (filesystem w) (resolve (filesystem w) root_path)))"
  by (simp add: scan_virtualenvs_def Let_def fst_scan_loop [symmetric] split: prod.splits)

lemma snd_scan_virtualenvs:
  "snd (scan_virtualenvs w vb root_path older) =
     concat (map (\<lambda>p. snd (scan_candidate w vb older p))
                 (rglob (filesystem w) (resolve (filesystem w) root_path)))
     @ (if vb then [Console (Scan_complete (length (fst (scan_virtualenvs w vb root_path older))))]
        else [])"
  by (simp add: scan_virtualenvs_def Let_def snd_scan_loop [symmetric] split: prod.splits)

lemma scan_candidate_record:
  "r \<in> set (fst (scan_candidate w vb older p)) \<Longrightarrow>
   path r = p \<and> size_mb r = get_dir_size (filesystem w) p
   \<and> age_days r = get_dir_age_days (filesystem w) (clock w p) p
   \<and> (is_broken r \<longleftrightarrow> packages r = None)
   \<and> packages r = fst (get_venv_packages w vb p)"
  by (auto simp: scan_candidate_def Let_def split: if_splits prod.splits)

lemma scan_record:
  "r \<in> set (fst (scan_virtualenvs w vb root_path older)) \<Longrightarrow>
   size_mb r = get_dir_size (filesystem w) (path r)
   \<and> age_days r = get_dir_age_days (filesystem w) (clock w (path r)) (path r)
   \<and> (is_broken r \<longleftrightarrow> packages r = None)
   \<and> packages r = fst (get_venv_packages w vb (path r))"
  by (auto simp: fst_scan_virtualenvs dest: scan_candidate_record)

lemma get_venv_packages_from_probe:
  "filter from_probe (snd (get_venv_packages w vb p)) = snd (get_venv_packages w vb p)"
  by (simp add: get_venv_packages_def Let_def split: sum.splits)

lemma scan_candidate_paths:
  "map path (fst (scan_candidate w vb older p)) = (if kept w older p then [p] else [])"
  by (simp add: scan_candidate_def kept_def Let_def split: prod.splits)

lemma scan_candidate_probe_events:
  "filter from_probe (snd (scan_candidate w vb older p)) =
     (if kept w older p then snd (get_venv_packages w vb p) else [])"
  using get_venv_packages_from_probe [of w vb p]
  by (auto simp: scan_candidate_def kept_def Let_def split: prod.splits)

lemma concat_map_if:
  "concat (map (\<lambda>x. if P x then f x else []) xs) = concat (map f (filter P xs))"
  by (induction xs) auto

lemma scan_paths:
  "map path (fst (scan_virtualenvs w vb root_path older)) =
     filter (kept w older) (rglob (filesystem w) (resolve (filesystem w) root_path))"
proof -
  have "map path (fst (scan_virtualenvs w vb root_path older)) =
        concat (map (\<lambda>p. if kept w older p then [p] else [])
                  (rglob (filesystem w) (resolve (filesystem w) root_path)))"
    by (simp add: fst_scan_virtualenvs map_concat comp_def scan_candidate_paths)
  also have "\<dots> = concat (map (\<lambda>p. [p])
                  (filter (kept w older) (rglob (filesystem w) (resolve (filesystem w) root_path))))"
    by (rule concat_map_if)
  finally show ?thesis by simp
qed

lemma scan_probe_events:
  "filter from_probe (snd (scan_virtualenvs w vb root_path older)) =
     concat (map (\<lambda>p. snd (get_venv_packages w vb p))
       (filter (kept w older) (rglob (filesystem w) (resolve (filesystem w) root_path))))"
proof -
  have "filter from_probe (snd (scan_virtualenvs w vb root_path older)) =
        concat (map (\<lambda>p. if kept w older p then snd (get_venv_packages w vb p) else [])
                  (rglob (filesystem w) (resolve (filesystem w) root_path)))"
    by (simp add: snd_scan_virtualenvs filter_concat comp_def scan_candidate_probe_events)
  then show ?thesis by (simp add: concat_map_if)
qed

text \<open>
  Claim C5. With an age filter \<open>t\<close>, the scan keeps exactly the candidates whose age is
  strictly greater than \<open>t\<close> (one of age \<open>t\<close> is dropped), in the order of the traversal;
  and the events of probing that the scan causes are those of probing the kept
  candidates, one after the other: no probe runs for a candidate that is dropped.
\<close>

theorem scan_age_filter_strict:
  "map path (fst (scan_virtualenvs w vb root_path (Some t))) =
     filter (\<lambda>p. t < get_dir_age_days (filesystem w) (clock w p) p) (candidates w root_path)
   \<and> filter from_probe (snd (scan_virtualenvs w vb root_path (Some t))) =
     concat (map (\<lambda>p. snd (get_venv_packages w vb p))
       (filter (\<lambda>p. t < get_dir_age_days (filesystem w) (clock w p) p) (candidates w root_path)))"
proof -
  have "filter (kept w (Some t)) (rglob (filesystem w) (resolve (filesystem w) root_path)) =
        filter (\<lambda>p. t < get_dir_age_days (filesystem w) (clock w p) p) (candidates w root_path)"
    by (auto simp: candidates_def kept_def passes_age_filter_def intro!: filter_cong)
  then show ?thesis
    using scan_paths [of w vb root_path "Some t"] scan_probe_events [of w vb root_path "Some t"]
    by simp
qed

lemma example_scan_older_than_40:
  "scan_virtualenvs example_world False [''work''] (Some 40) = ([], [])"
  by (simp add: example_defs fs_defs scan_defs)

lemma example_stale_age:
  "get_dir_age_days (filesystem example_world) (clock example_world [''work'', ''stale''])
     [''work'', ''stale''] = 40"
  by (simp add: example_defs fs_defs get_dir_age_days_def microseconds_per_day_def)

text \<open>In the example world \<^verbatim>\<open>/work/stale\<close> has age 40, and the filter 40 drops it.\<close>

theorem scan_age_filter_strict_witness:
  "get_dir_age_days (filesystem example_world) (clock example_world [''work'', ''stale''])
     [''work'', ''stale''] = 40
   \<and> filter (\<lambda>p. 40 < get_dir_age_days (filesystem example_world) (clock example_world p) p)
        (candidates example_world [''work'']) = []
   \<and> filter (\<lambda>p. 30 < get_dir_age_days (filesystem example_world) (clock example_world p) p)
        (candidates example_world [''work'']) = [[''work'', ''stale'']]"
  using scan_age_filter_strict [of example_world False "[''work'']" 40]
    scan_age_filter_strict [of example_world False "[''work'']" 30]
    example_stale_age
  by (simp add: example_scan_older_than_40 example_scan_older_than_30)

text \<open>
  Claim C10. In every record the scan returns, \<open>is_broken\<close> holds exactly when the
  package list is absent.
\<close>

theorem scan_is_broken_iff_no_packages:
  "r \<in> set (fst (scan_virtualenvs w vb root_path older)) \<Longrightarrow>
   is_broken r \<longleftrightarrow> packages r = None"
  by (auto simp: fst_scan_virtualenvs dest: scan_candidate_record)

theorem scan_is_broken_iff_no_packages_witness:
  "\<lparr>path = [''work'', ''stale''], size_mb = 35 / 524288, age_days = 40,
     is_broken = True, packages = None\<rparr>
     \<in> set (fst (scan_virtualenvs example_world False [''work''] (Some 30)))
   \<and> (is_broken \<lparr>path = [''work'', ''stale''], size_mb = 35 / 524288, age_days = 40,
                   is_broken = True, packages = None\<rparr>
        \<longleftrightarrow> packages \<lparr>path = [''work'', ''stale''], size_mb = 35 / 524288, age_days = 40,
                        is_broken = True, packages = None\<rparr> = None)"
proof -
  let ?r = "\<lparr>path = [''work'', ''stale''], size_mb = 35 / 524288, age_days = 40,
             is_broken = True, packages = (None :: (json \<times> json) list option)\<rparr>"
  have m: "?r \<in> set (fst (scan_virtualenvs example_world False [''work''] (Some 30)))"
    by (simp add: example_scan_older_than_30)
  from scan_is_broken_iff_no_packages [OF m] m show ?thesis by blast
qed

section \<open>The detector\<close>

text \<open>
  Claim C7. \<open>is_virtualenv\<close> holds exactly when one of the four markers exists under the
  directory: the configuration file, the interpreter in \<^verbatim>\<open>bin\<close>, the interpreter in
  \<^verbatim>\<open>Scripts\<close>, or \<^verbatim>\<open>Lib/site-packages\<close>. One is enough, and with none the answer is no.
\<close>

theorem is_virtualenv_any_marker:
  "is_virtualenv fs p \<longleftrightarrow>
     path_exists fs (p @ [''pyvenv.cfg''])
     \<or> path_exists fs (p @ [''bin'', ''python''])
     \<or> path_exists fs (p @ [''Scripts'', ''python.exe''])
     \<or> path_exists fs (p @ [''Lib'', ''site-packages''])"
  by (simp add: is_virtualenv_def venv_markers_def)

lemma example_markers:
  "path_exists example_fs ([''work'', ''stale''] @ [''pyvenv.cfg''])
   \<and> \<not> path_exists example_fs ([''work'', ''empty''] @ [''pyvenv.cfg''])
   \<and> \<not> path_exists example_fs ([''work'', ''empty''] @ [''bin'', ''python''])
   \<and> \<not> path_exists example_fs ([''work'', ''empty''] @ [''Scripts'', ''python.exe''])
   \<and> \<not> path_exists example_fs ([''work'', ''empty''] @ [''Lib'', ''site-packages''])"
  by (simp add: example_defs fs_defs)

theorem is_virtualenv_any_marker_witness:
  "path_exists example_fs ([''work'', ''stale''] @ [''pyvenv.cfg''])
   \<and> is_virtualenv example_fs [''work'', ''stale'']
   \<and> \<not> is_virtualenv example_fs [''work'', ''empty'']"
  using is_virtualenv_any_marker [of example_fs "[''work'', ''stale'']"]
    is_virtualenv_any_marker [of example_fs "[''work'', ''empty'']"]
    example_markers
  by blast

section \<open>The health probe\<close>

text \<open>
  Claim C6. Where the interpreter that \<open>get_python_path\<close> names does not exist, the probe
  returns nothing and \<^verbatim>\<open>subprocess.run\<close> is not called. Where the call raises, the process
  ends with a return code other than 0, or its output is not JSON, the probe returns
  nothing as well; it has no other outcome than a list or nothing.
\<close>

theorem get_venv_packages_absent:
  "(\<not> path_exists (filesystem w) (get_python_path w p) \<longrightarrow>
      fst (get_venv_packages w vb p) = None
      \<and> (\<forall>q. Subprocess q \<notin> set (snd (get_venv_packages w vb p))))
   \<and> ((\<exists>e. subprocess_run w (get_python_path w p) = Raised e)
        \<or> (\<exists>rc out. subprocess_run w (get_python_path w p) = Completed rc out
               \<and> (rc \<noteq> 0 \<or> json_loads w out = None)) \<longrightarrow>
      fst (get_venv_packages w vb p) = None)"
  by (auto simp: get_venv_packages_def pip_list_def Let_def
           split: sum.splits if_splits option.splits)

lemma example_stale_python:
  "get_python_path example_world [''work'', ''stale''] = [''work'', ''stale'', ''bin'', ''python'']
   \<and> \<not> path_exists (filesystem example_world) [''work'', ''stale'', ''bin'', ''python'']"
  by (simp add: example_defs fs_defs get_python_path_def)

lemma failing_pip_fresh_python:
  "get_python_path failing_pip_world [''work'', ''fresh''] = [''usr'', ''bin'', ''python3'']
   \<and> path_exists (filesystem failing_pip_world) [''usr'', ''bin'', ''python3'']
   \<and> subprocess_run failing_pip_world [''usr'', ''bin'', ''python3''] = Completed 1 []"
  by (simp add: example_defs fs_defs get_python_path_def)

theorem get_venv_packages_absent_witness:
  "\<not> path_exists (filesystem example_world) (get_python_path example_world [''work'', ''stale''])
   \<and> fst (get_venv_packages example_world True [''work'', ''stale'']) = None
   \<and> (\<forall>q. Subprocess q \<notin> set (snd (get_venv_packages example_world True [''work'', ''stale''])))
   \<and> path_exists (filesystem failing_pip_world)
        (get_python_path failing_pip_world [''work'', ''fresh''])
   \<and> subprocess_run failing_pip_world (get_python_path failing_pip_world [''work'', ''fresh''])
        = Completed 1 []
   \<and> fst (get_venv_packages failing_pip_world True [''work'', ''fresh'']) = None"
  using get_venv_packages_absent [where w = example_world and p = "[''work'', ''stale'']"
      and vb = True]
    get_venv_packages_absent [where w = failing_pip_world and p = "[''work'', ''fresh'']"
      and vb = True]
    example_stale_python failing_pip_fresh_python
  by simp

section \<open>Age\<close>

lemma py_max_eq: "py_max (x # xs) = Inr (Max (set (x # xs)))"
  using Max.set_eq_fold [of x xs] by simp

text \<open>
  Claim C8. A directory with no regular file below it has age 0. A directory whose
  newest regular file was modified exactly \<open>N\<close> days before the clock is read has age \<open>N\<close>.
\<close>

theorem get_dir_age_days_exact:
  "(regular_files fs p = [] \<longrightarrow> get_dir_age_days fs now p = 0)
   \<and> (f \<in> set (regular_files fs p)
        \<and> (\<forall>g \<in> set (regular_files fs p). st_mtime fs g \<le> st_mtime fs f)
        \<and> now - st_mtime fs f = N * microseconds_per_day
      \<longrightarrow> get_dir_age_days fs now p = N)"
proof (intro conjI impI)
  assume "regular_files fs p = []"
  then show "get_dir_age_days fs now p = 0"
    by (simp add: get_dir_age_days_def)
next
  assume h: "f \<in> set (regular_files fs p)
        \<and> (\<forall>g \<in> set (regular_files fs p). st_mtime fs g \<le> st_mtime fs f)
        \<and> now - st_mtime fs f = N * microseconds_per_day"
  let ?ms = "map (st_mtime fs) (regular_files fs p)"
  from h obtain m ms where ms: "?ms = m # ms"
    by (cases ?ms) auto
  have "Max (set ?ms) = st_mtime fs f"
  proof (rule Max_eqI)
    show "finite (set ?ms)" by simp
    show "\<And>y. y \<in> set ?ms \<Longrightarrow> y \<le> st_mtime fs f" using h by auto
    show "st_mtime fs f \<in> set ?ms" using h by auto
  qed
  then have "py_max ?ms = Inr (st_mtime fs f)"
    using ms py_max_eq [of m ms] by simp
  then show "get_dir_age_days fs now p = N"
    using h by (simp add: get_dir_age_days_def microseconds_per_day_def)
qed

lemma example_stale_mtime:
  "st_mtime example_fs [''work'', ''stale'', ''pyvenv.cfg''] = 5184000000000"
  by (simp add: example_defs fs_defs)

theorem get_dir_age_days_exact_witness:
  "regular_files example_fs [''work'', ''empty''] = []
   \<and> get_dir_age_days example_fs 8640000000000 [''work'', ''empty''] = 0
   \<and> [''work'', ''stale'', ''pyvenv.cfg''] \<in> set (regular_files example_fs [''work'', ''stale''])
   \<and> 8640000000000 - st_mtime example_fs [''work'', ''stale'', ''pyvenv.cfg'']
       = 40 * microseconds_per_day
   \<and> get_dir_age_days example_fs 8640000000000 [''work'', ''stale''] = 40"
  using get_dir_age_days_exact [where fs = example_fs and p = "[''work'', ''empty'']"
      and now = 8640000000000]
    get_dir_age_days_exact [where fs = example_fs and p = "[''work'', ''stale'']"
      and now = 8640000000000 and f = "[''work'', ''stale'', ''pyvenv.cfg'']" and N = 40]
    example_empty_files example_stale_files example_stale_mtime
  by (simp add: microseconds_per_day_def)

section \<open>Size\<close>

lemma entries_under_prefix:
  "q \<in> set (entries_under p d) \<Longrightarrow> \<exists>rel. q = p @ rel \<and> rel \<noteq> []"
proof (induction p d arbitrary: q rule: entries_under.induct)
  case (1 p es)
  then obtain n c where nc: "(n, c) \<in> set es"
    and q: "q = p @ [n] \<or> q \<in> set (entries_under (p @ [n]) c)"
    by auto
  from q show ?case
  proof
    assume "q = p @ [n]"
    then show ?thesis by auto
  next
    assume "q \<in> set (entries_under (p @ [n]) c)"
    with "1.IH" [OF nc refl] obtain rel where "q = (p @ [n]) @ rel" by blast
    then show ?thesis by auto
  qed
qed auto

lemma phys_wf: "wf_node n \<Longrightarrow> phys n p = Some d \<Longrightarrow> wf_node d"
proof (induction n p rule: phys.induct)
  case (2 es x xs)
  then obtain c where c: "map_of es x = Some c" and d: "phys c xs = Some d"
    by (auto split: option.splits)
  from c have "(x, c) \<in> set es" by (rule map_of_SomeD)
  with "2.prems" have "wf_node c" by (auto simp: list_all_iff)
  with "2.IH" [OF c] d show ?case by simp
qed auto

text \<open>The traversal lists exactly the entries beneath the directory, whatever their depth.\<close>

lemma entries_under_set:
  "wf_node d \<Longrightarrow>
   q \<in> set (entries_under p d) \<longleftrightarrow> (\<exists>rel. q = p @ rel \<and> rel \<noteq> [] \<and> phys d rel \<noteq> None)"
proof (induction p d arbitrary: q rule: entries_under.induct)
  case (1 p es)
  have dist: "distinct (map fst es)" and wfc: "\<And>n c. (n, c) \<in> set es \<Longrightarrow> wf_node c"
    using "1.prems" by (auto simp: list_all_iff)
  have mo: "\<And>n c. map_of es n = Some c \<longleftrightarrow> (n, c) \<in> set es"
    using dist by simp
  show ?case
  proof
    assume "q \<in> set (entries_under p (Dir es))"
    then obtain n c where nc: "(n, c) \<in> set es"
      and q: "q = p @ [n] \<or> q \<in> set (entries_under (p @ [n]) c)"
      by auto
    from q show "\<exists>rel. q = p @ rel \<and> rel \<noteq> [] \<and> phys (Dir es) rel \<noteq> None"
    proof
      assume "q = p @ [n]"
      moreover from nc mo have "map_of es n = Some c" by simp
      ultimately show ?thesis by (intro exI [of _ "[n]"]) simp
    next
      assume "q \<in> set (entries_under (p @ [n]) c)"
      with "1.IH" [OF nc refl wfc [OF nc]] obtain rel
        where "q = (p @ [n]) @ rel" "phys c rel \<noteq> None" by blast
      moreover from nc mo have "map_of es n = Some c" by simp
      ultimately show ?thesis by (intro exI [of _ "n # rel"]) simp
    qed
  next
    assume "\<exists>rel. q = p @ rel \<and> rel \<noteq> [] \<and> phys (Dir es) rel \<noteq> None"
    then obtain n rel where q: "q = p @ n # rel" and ph: "phys (Dir es) (n # rel) \<noteq> None"
      by (auto simp: neq_Nil_conv)
    from ph obtain c where c: "map_of es n = Some c" and pc: "phys c rel \<noteq> None"
      by (auto split: option.splits)
    from c mo have nc: "(n, c) \<in> set es" by simp
    have "q = p @ [n] \<or> q \<in> set (entries_under (p @ [n]) c)"
    proof (cases rel)
      case Nil
      with q show ?thesis by simp
    next
      case (Cons y ys)
      with q pc have "\<exists>rel'. q = (p @ [n]) @ rel' \<and> rel' \<noteq> [] \<and> phys c rel' \<noteq> None"
        by (intro exI [of _ rel]) simp
      with "1.IH" [OF nc refl wfc [OF nc]] show ?thesis by blast
    qed
    with nc show "q \<in> set (entries_under p (Dir es))" by force
  qed
qed (auto simp: neq_Nil_conv)

text \<open>It lists no entry twice.\<close>

lemma distinct_listing:
  "distinct (map fst es) \<Longrightarrow>
   (\<And>n c. (n, c) \<in> set es \<Longrightarrow> distinct (entries_under (p @ [n]) c)) \<Longrightarrow>
   distinct (concat (map (\<lambda>(n, c). (p @ [n]) # entries_under (p @ [n]) c) es))"
proof (induction es)
  case Nil
  then show ?case by simp
next
  case (Cons e es)
  obtain n c where e: "e = (n, c)" by (cases e)
  have here: "distinct ((p @ [n]) # entries_under (p @ [n]) c)"
    using Cons.prems(2) [of n c] e entries_under_prefix [of "p @ [n]" "p @ [n]" c] by auto
  have rest: "distinct (concat (map (\<lambda>(n, c). (p @ [n]) # entries_under (p @ [n]) c) es))"
    using Cons by auto
  have disj: "q \<notin> set (concat (map (\<lambda>(n, c). (p @ [n]) # entries_under (p @ [n]) c) es))"
    if "q \<in> set ((p @ [n]) # entries_under (p @ [n]) c)" for q
  proof
    assume "q \<in> set (concat (map (\<lambda>(n, c). (p @ [n]) # entries_under (p @ [n]) c) es))"
    then obtain n' c' where nc': "(n', c') \<in> set es"
      and q': "q = p @ [n'] \<or> q \<in> set (entries_under (p @ [n']) c')"
      by auto
    from nc' Cons.prems(1) e have ne: "n' \<noteq> n" by force
    from q' obtain r' where r': "q = p @ n' # r'"
      using entries_under_prefix [of q "p @ [n']" c'] by auto
    from that obtain r where r: "q = p @ n # r"
      using entries_under_prefix [of q "p @ [n]" c] by auto
    from r r' ne show False by simp
  qed
  have "distinct (((p @ [n]) # entries_under (p @ [n]) c) @
          concat (map (\<lambda>(n, c). (p @ [n]) # entries_under (p @ [n]) c) es))"
    unfolding distinct_append using here rest disj by blast
  with e show ?case by simp
qed

lemma entries_under_distinct: "wf_node d \<Longrightarrow> distinct (entries_under p d)"
proof (induction p d rule: entries_under.induct)
  case (1 p es)
  have "distinct (concat (map (\<lambda>(n, c). (p @ [n]) # entries_under (p @ [n]) c) es))"
  proof (rule distinct_listing)
    show "distinct (map fst es)" using "1.prems" by simp
    fix n c assume nc: "(n, c) \<in> set es"
    with "1.prems" have "wf_node c" by (auto simp: list_all_iff)
    with "1.IH" [OF nc refl] show "distinct (entries_under (p @ [n]) c)" .
  qed
  then show ?case by simp
qed auto

lemma stat_wf: "wf_fs fs \<Longrightarrow> stat fs p = Some d \<Longrightarrow> wf_node d"
  by (auto simp: stat_def wf_fs_def phys_at_def split: option.splits dest: phys_wf)

lemma rglob_set:
  assumes "wf_fs fs"
  shows "set (rglob fs p) = entries_beneath fs p"
proof (cases "stat fs p")
  case None
  then show ?thesis by (simp add: rglob_def entries_beneath_def)
next
  case (Some d)
  with assms have "wf_node d" by (simp add: stat_wf)
  then have "\<And>q. q \<in> set (entries_under p d) \<longleftrightarrow>
               (\<exists>rel. q = p @ rel \<and> rel \<noteq> [] \<and> phys d rel \<noteq> None)"
    by (rule entries_under_set)
  with Some show ?thesis by (auto simp: rglob_def entries_beneath_def)
qed

lemma rglob_distinct: "wf_fs fs \<Longrightarrow> distinct (rglob fs p)"
  by (auto simp: rglob_def entries_under_distinct stat_wf split: option.splits)

lemma total_bytes_sum:
  assumes "wf_fs fs"
  shows "sum_list (map (st_size fs) (regular_files fs p)) =
         (\<Sum>f \<in> regular_files_beneath fs p. st_size fs f)"
proof -
  have "distinct (regular_files fs p)"
    using rglob_distinct [OF assms] by (simp add: regular_files_def)
  then have "sum_list (map (st_size fs) (regular_files fs p)) =
             sum (st_size fs) (set (regular_files fs p))"
    by (rule sum_list_distinct_conv_sum_set)
  moreover have "set (regular_files fs p) = regular_files_beneath fs p"
    using rglob_set [OF assms] by (auto simp: regular_files_def regular_files_beneath_def)
  ultimately show ?thesis by simp
qed

lemma round53_exact: "n < 2 ^ 53 \<Longrightarrow> round53 n = n"
  by (simp add: round53_def)

text \<open>
  Claim C4, as amended. The record holds no byte count. Its field \<open>size_mb\<close> is the total
  of the byte lengths of all regular files beneath the directory, at any depth, divided
  by 1048576 as a \<^verbatim>\<open>float\<close>: the total is exact, and the quotient is exact as well while
  the total is below \<open>2 ^ 53\<close> (\<open>round53\<close> is the identity there).
\<close>

theorem scan_size_is_megabytes:
  assumes "r \<in> set (fst (scan_virtualenvs w vb root_path older))"
    and "wf_fs (filesystem w)"
  shows "size_mb r * 1048576 =
         of_nat (round53 (\<Sum>f \<in> regular_files_beneath (filesystem w) (path r).
                            st_size (filesystem w) f))"
  using scan_record [OF assms(1)] total_bytes_sum [OF assms(2), of "path r"]
  by (simp add: get_dir_size_def)

theorem scan_size_is_megabytes_witness:
  "wf_fs (filesystem example_world)
   \<and> \<lparr>path = [''work'', ''stale''], size_mb = 35 / 524288, age_days = 40,
       is_broken = True, packages = None\<rparr>
      \<in> set (fst (scan_virtualenvs example_world False [''work''] (Some 30)))
   \<and> (35 / 524288 :: rat) * 1048576 =
       of_nat (round53 (\<Sum>f \<in> regular_files_beneath (filesystem example_world) [''work'', ''stale''].
                          st_size (filesystem example_world) f))"
proof -
  let ?r = "\<lparr>path = [''work'', ''stale''], size_mb = 35 / 524288, age_days = 40,
             is_broken = True, packages = (None :: (json \<times> json) list option)\<rparr>"
  have w: "wf_fs (filesystem example_world)"
    using example_wf by (simp add: example_world_def)
  have m: "?r \<in> set (fst (scan_virtualenvs example_world False [''work''] (Some 30)))"
    by (simp add: example_scan_older_than_30)
  from scan_size_is_megabytes [OF m w] w m show ?thesis by simp
qed

text \<open>
  Claim C4 as stated fails: the environment \<^verbatim>\<open>/work/stale\<close> holds one file of 70 bytes,
  and the size recorded for it is \<open>35 / 524288\<close>, not 70.
\<close>

theorem scan_size_is_not_bytes:
  "map size_mb (fst (scan_virtualenvs example_world False [''work''] (Some 30))) = [35 / 524288]
   \<and> map path (fst (scan_virtualenvs example_world False [''work''] (Some 30)))
       = [[''work'', ''stale'']]
   \<and> sum_list (map (st_size (filesystem example_world))
        (regular_files (filesystem example_world) [''work'', ''stale''])) = 70
   \<and> (35 / 524288 :: rat) \<noteq> 70"
  by (simp add: example_scan_older_than_30)
     (simp add: example_defs fs_defs)

section \<open>Removal\<close>

lemma same_kind_refl: "same_kind n n"
  by (cases n) auto

lemma map_of_filter_key:
  "map_of (filter (\<lambda>e. fst e \<noteq> x) es) y = (if y = x then None else map_of es y)"
  by (induction es) auto

lemma map_of_map_at_key:
  "map_of (map (\<lambda>(k, v). if k = x then (k, f v) else (k, v)) es) y =
     (if y = x then map_option f (map_of es y) else map_of es y)"
  by (induction es) auto

text \<open>After the removal nothing is found at the place removed.\<close>

lemma phys_remove_node_gone:
  "q \<noteq> [] \<Longrightarrow> phys (remove_node r q) q = None"
proof (induction r q rule: remove_node.induct)
  case (1 es x)
  then show ?case by (simp add: map_of_filter_key)
next
  case (2 es x y ys)
  show ?case
  proof (cases "map_of es x")
    case None
    then show ?thesis by (simp add: map_of_map_at_key)
  next
    case (Some v)
    then have "(x, v) \<in> set es" by (rule map_of_SomeD)
    then have "phys (remove_node v (y # ys)) (y # ys) = None"
      using "2.IH" [of "(x, v)" x v] by simp
    with Some show ?thesis by (simp add: map_of_map_at_key)
  qed
qed (auto simp: neq_Nil_conv)

text \<open>What is found after the removal was there before, and of the same kind.\<close>

lemma phys_remove_node_sub:
  "phys (remove_node r q) s = Some n' \<Longrightarrow> \<exists>n. phys r s = Some n \<and> same_kind n' n"
proof (induction r q arbitrary: s n' rule: remove_node.induct)
  case (1 es x)
  show ?case
  proof (cases s)
    case Nil
    with 1 show ?thesis by auto
  next
    case (Cons y ys)
    with 1 show ?thesis
      by (auto simp: map_of_filter_key same_kind_refl split: if_splits option.splits)
  qed
next
  case (2 es x y ys)
  show ?case
  proof (cases s)
    case Nil
    with 2 show ?thesis by auto
  next
    case (Cons z zs)
    show ?thesis
    proof (cases "z = x")
      case False
      with 2 Cons show ?thesis
        by (auto simp: map_of_map_at_key same_kind_refl split: option.splits)
    next
      case True
      from "2.prems" Cons True obtain v where v: "map_of es x = Some v"
        and ph: "phys (remove_node v (y # ys)) zs = Some n'"
        by (auto simp: map_of_map_at_key split: option.splits)
      from v have "(x, v) \<in> set es" by (rule map_of_SomeD)
      then have "\<exists>n. phys v zs = Some n \<and> same_kind n' n"
        using "2.IH" [of "(x, v)" x v zs n'] ph by simp
      with v Cons True show ?thesis by simp
    qed
  qed
qed (auto simp: same_kind_refl)

lemma phys_at_remove_at_sub:
  "phys_at (remove_at fs q) s = Some n' \<Longrightarrow> \<exists>n. phys_at fs s = Some n \<and> same_kind n' n"
  by (cases "(fs, q)" rule: remove_at.cases)
     (auto simp: phys_at_def dest: phys_remove_node_sub simp del: remove_node.simps)

lemma phys_at_remove_at_gone: "phys_at (remove_at fs q) q = None"
  by (cases "(fs, q)" rule: remove_at.cases)
     (auto simp: phys_at_def phys_remove_node_gone simp del: remove_node.simps)

text \<open>A path that resolves after the removal resolved to the same place before.\<close>

lemma walk_remove_at_sub:
  "walk (remove_at fs q) k cur s = Some q2 \<Longrightarrow> walk fs k cur s = Some q2"
proof (induction "remove_at fs q" k cur s rule: walk.induct)
  case (1 fuel cur)
  then show ?case by simp
next
  case (2 fuel cur x xs)
  from "2.prems" obtain n' where n': "phys_at (remove_at fs q) (cur @ [x]) = Some n'"
    by (auto split: option.splits)
  then obtain n where n: "phys_at fs (cur @ [x]) = Some n" and k: "same_kind n' n"
    using phys_at_remove_at_sub by blast
  show ?case
  proof (cases n')
    case (File a b)
    with 2 n' n k show ?thesis by auto
  next
    case (Dir es)
    with 2 n' n k show ?thesis by (auto split: node.splits)
  next
    case (Symlink t)
    with 2 n' n k show ?thesis by (auto split: if_splits)
  qed
qed

lemma walk_snoc:
  "walk fs k cur xs = Some q0 \<Longrightarrow> phys_at fs (q0 @ [x]) = Some n \<Longrightarrow>
   (\<forall>t. n \<noteq> Symlink t) \<Longrightarrow> walk fs k cur (xs @ [x]) = Some (q0 @ [x])"
proof (induction fs k cur xs rule: walk.induct)
  case (1 fs fuel cur)
  then show ?case by (cases n) auto
next
  case (2 fs fuel cur y ys)
  then show ?case
    by (auto split: option.splits node.splits if_splits)
qed

lemma walk_real_location:
  assumes "real_location fs p = Some q" and "phys_at fs q = Some n" and "\<forall>t. n \<noteq> Symlink t"
  shows "walk fs maxsymlinks [] p = Some q"
proof (cases "p = []")
  case True
  with assms show ?thesis by (simp add: real_location_def)
next
  case False
  with assms obtain q0 where q0: "walk fs maxsymlinks [] (butlast p) = Some q0"
    and q: "q = q0 @ [last p]"
    by (auto simp: real_location_def split: option.splits)
  from walk_snoc [OF q0, of "last p" n] assms q False show ?thesis by simp
qed

lemma real_location_remove_at_sub:
  "real_location (remove_at fs q) p = Some q2 \<Longrightarrow> real_location fs p = Some q2"
  by (auto simp: real_location_def dest: walk_remove_at_sub split: if_splits option.splits)

lemma rmtree_directory:
  assumes "lstat fs p = Some (Dir es)"
  shows "\<exists>fs'. rmtree fs p = Inr fs' \<and> stat fs' p = None \<and> lstat fs' p = None"
proof -
  from assms obtain q where q: "real_location fs p = Some q" and d: "phys_at fs q = Some (Dir es)"
    by (auto simp: lstat_def split: option.splits)
  let ?fs' = "remove_at fs q"
  have r: "rmtree fs p = Inr ?fs'"
    using q d by (simp add: rmtree_def)
  have w: "walk fs maxsymlinks [] p = Some q"
    using walk_real_location [OF q d] by simp
  have "stat ?fs' p = None"
  proof (cases "walk ?fs' maxsymlinks [] p")
    case None
    then show ?thesis by (simp add: stat_def)
  next
    case (Some q2)
    then have "walk fs maxsymlinks [] p = Some q2" by (rule walk_remove_at_sub)
    with w have "q2 = q" by simp
    with Some show ?thesis by (simp add: stat_def phys_at_remove_at_gone)
  qed
  moreover have "lstat ?fs' p = None"
  proof (cases "real_location ?fs' p")
    case None
    then show ?thesis by (simp add: lstat_def)
  next
    case (Some q2)
    then have "real_location fs p = Some q2" by (rule real_location_remove_at_sub)
    with q have "q2 = q" by simp
    with Some show ?thesis by (simp add: lstat_def phys_at_remove_at_gone)
  qed
  ultimately show ?thesis using r by simp
qed

lemma rmtree_not_directory:
  assumes "\<not> (\<exists>es. lstat fs p = Some (Dir es))"
  shows "\<exists>e. rmtree fs p = Inl e"
  using assms by (auto simp: rmtree_def lstat_def split: option.splits node.splits)

text \<open>
  Claim C9. Removing a path that is a directory returns true, and afterwards the path
  does not exist (nor is anything left under its name). Removing a path at which there
  is nothing returns false, with a line on the standard error stream and the filesystem
  as it was; no exception leaves \<open>remove_virtualenv\<close>.
\<close>

theorem remove_virtualenv_result:
  "(lstat fs p = Some (Dir es) \<longrightarrow>
      (\<exists>fs'. remove_virtualenv fs p = (True, [], fs')
             \<and> \<not> path_exists fs' p \<and> lstat fs' p = None))
   \<and> (lstat fs p = None \<longrightarrow>
      (\<exists>e. remove_virtualenv fs p = (False, [Stderr (Failed_to_remove p e)], fs)))"
proof (intro conjI impI)
  assume "lstat fs p = Some (Dir es)"
  from rmtree_directory [OF this] show
    "\<exists>fs'. remove_virtualenv fs p = (True, [], fs') \<and> \<not> path_exists fs' p \<and> lstat fs' p = None"
    by (auto simp: remove_virtualenv_def path_exists_def)
next
  assume "lstat fs p = None"
  then have "\<not> (\<exists>es. lstat fs p = Some (Dir es))" by simp
  from rmtree_not_directory [OF this] show
    "\<exists>e. remove_virtualenv fs p = (False, [Stderr (Failed_to_remove p e)], fs)"
    by (auto simp: remove_virtualenv_def)
qed

lemma example_lstat:
  "lstat example_fs [''work'', ''stale''] = Some (Dir [(''pyvenv.cfg'', File 70 5184000000000)])
   \<and> lstat example_fs [''work'', ''missing''] = None"
  by (simp add: example_defs fs_defs)

theorem remove_virtualenv_result_witness:
  "lstat example_fs [''work'', ''stale''] = Some (Dir [(''pyvenv.cfg'', File 70 5184000000000)])
   \<and> (\<exists>fs'. remove_virtualenv example_fs [''work'', ''stale''] = (True, [], fs')
             \<and> \<not> path_exists fs' [''work'', ''stale''] \<and> lstat fs' [''work'', ''stale''] = None)
   \<and> lstat example_fs [''work'', ''missing''] = None
   \<and> (\<exists>e. remove_virtualenv example_fs [''work'', ''missing'']
             = (False, [Stderr (Failed_to_remove [''work'', ''missing''] e)], example_fs))"
  using remove_virtualenv_result [where fs = example_fs and p = "[''work'', ''stale'']"
      and es = "[(''pyvenv.cfg'', File 70 5184000000000)]"]
    remove_virtualenv_result [where fs = example_fs and p = "[''work'', ''missing'']"]
    example_lstat
  by blast

section \<open>Processing\<close>

lemma process_loop_no_removal:
  "\<not> remove_broken a \<Longrightarrow> snd (process_loop fs a venvs) = fs"
  by (induction venvs) (auto simp: Let_def split: prod.splits)

text \<open>Without \<^verbatim>\<open>--remove-broken\<close> nothing is removed, whatever \<^verbatim>\<open>--remove\<close> says.\<close>

lemma process_without_remove_broken:
  assumes nb: "\<not> remove_broken a"
  shows "snd (process_virtualenvs w vb a) = filesystem w"
proof -
  obtain venvs scan_events
    where s: "scan_virtualenvs w vb (root_dir a) (older_than a) = (venvs, scan_events)"
    by (cases "scan_virtualenvs w vb (root_dir a) (older_than a)")
  obtain loop_events fs' where l: "process_loop (filesystem w) a venvs = (loop_events, fs')"
    by (cases "process_loop (filesystem w) a venvs")
  from process_loop_no_removal [OF nb, of "filesystem w" venvs] l have "fs' = filesystem w"
    by simp
  with s l show ?thesis
    by (simp add: process_virtualenvs_def Let_def)
qed

text \<open>An environment that is not broken is never removed.\<close>

lemma process_loop_healthy_only:
  "list_all (\<lambda>v. \<not> is_broken v) venvs \<Longrightarrow> snd (process_loop fs a venvs) = fs"
  by (induction venvs) (auto simp: Let_def split: prod.splits)

text \<open>The remove flag has no part in what processing does to the filesystem.\<close>

lemma process_loop_remove_flag:
  "process_loop fs (a\<lparr>remove := b\<rparr>) venvs = process_loop fs a venvs"
  by (induction venvs arbitrary: fs) (auto simp: Let_def split: prod.splits)

lemma remove_flag_ignored:
  "snd (process_virtualenvs w vb (a\<lparr>remove := b\<rparr>)) = snd (process_virtualenvs w vb a)"
  by (simp add: process_virtualenvs_def Let_def process_loop_remove_flag split: prod.splits)

text \<open>
  Claim C1. With \<^verbatim>\<open>--remove\<close> and an age threshold, every environment the threshold selects
  is to be deleted. The code reads \<^verbatim>\<open>args.remove\<close> only to decide on the dry-run note
  (line 233); the one call of \<open>remove_virtualenv\<close> (line 224) is for broken environments
  under \<^verbatim>\<open>--remove-broken\<close>. In the example world with \<^verbatim>\<open>--older-than 1 --remove\<close> the scan
  selects both environments, and after processing the filesystem is what it was: both
  are still there.
\<close>

theorem remove_flag_removes_nothing:
  "map path (fst (scan_virtualenvs example_world False [''work''] (Some 1)))
     = [[''work'', ''fresh''], [''work'', ''stale'']]
   \<and> snd (process_virtualenvs example_world False
            (example_args\<lparr>older_than := Some 1, remove := True\<rparr>)) = example_fs
   \<and> is_dir example_fs [''work'', ''fresh'']
   \<and> is_dir example_fs [''work'', ''stale'']"
proof -
  have "\<not> remove_broken (example_args\<lparr>older_than := Some 1, remove := True\<rparr>)"
    by (simp add: example_args_def)
  then have "snd (process_virtualenvs example_world False
            (example_args\<lparr>older_than := Some 1, remove := True\<rparr>)) = filesystem example_world"
    by (rule process_without_remove_broken)
  moreover have "is_dir example_fs [''work'', ''fresh''] \<and> is_dir example_fs [''work'', ''stale'']"
    by (simp add: example_defs fs_defs)
  ultimately show ?thesis
    by (simp add: example_scan_older_than_1) (simp add: example_world_def)
qed

text \<open>The note is printed by line 234 and by nothing else.\<close>

lemma get_venv_packages_no_note:
  "Console Dry_run_note \<notin> set (snd (get_venv_packages w vb p))"
  by (simp add: get_venv_packages_def Let_def split: sum.splits)

lemma scan_candidate_no_note:
  "Console Dry_run_note \<notin> set (snd (scan_candidate w vb older p))"
  using get_venv_packages_no_note [of w vb p]
  by (auto simp: scan_candidate_def Let_def split: prod.splits)

lemma scan_no_note:
  "Console Dry_run_note \<notin> set (snd (scan_virtualenvs w vb root_path older))"
  by (simp add: snd_scan_virtualenvs scan_candidate_no_note)

lemma display_no_note: "Console Dry_run_note \<notin> set (display_venv_info venv show_packages)"
  by (auto simp: display_venv_info_def split: option.splits list.splits)

lemma process_loop_no_note: "Console Dry_run_note \<notin> set (fst (process_loop fs a venvs))"
proof (induction venvs arbitrary: fs)
  case Nil
  then show ?case by simp
next
  case (Cons v venvs)
  obtain ok evs fs' where r: "remove_virtualenv fs (path v) = (ok, evs, fs')"
    by (cases "remove_virtualenv fs (path v)")
  then have e: "Console Dry_run_note \<notin> set evs"
    by (auto simp: remove_virtualenv_def split: sum.splits)
  obtain rest1 fs1 where l1: "process_loop fs' a venvs = (rest1, fs1)"
    by (cases "process_loop fs' a venvs")
  obtain rest2 fs2 where l2: "process_loop fs a venvs = (rest2, fs2)"
    by (cases "process_loop fs a venvs")
  from Cons [of fs'] l1 have n1: "Console Dry_run_note \<notin> set rest1" by simp
  from Cons [of fs] l2 have n2: "Console Dry_run_note \<notin> set rest2" by simp
  show ?case
    using r e l1 l2 n1 n2 display_no_note [of v "list_packages a"]
    by (simp add: Let_def)
qed

lemma dry_run_note_iff:
  "Console Dry_run_note \<in> set (fst (process_virtualenvs w vb a)) \<longleftrightarrow>
     truthy (older_than a) \<and> \<not> remove a
     \<and> fst (scan_virtualenvs w vb (root_dir a) (older_than a)) \<noteq> []"
proof -
  obtain venvs scan_events
    where s: "scan_virtualenvs w vb (root_dir a) (older_than a) = (venvs, scan_events)"
    by (cases "scan_virtualenvs w vb (root_dir a) (older_than a)")
  obtain loop_events fs' where l: "process_loop (filesystem w) a venvs = (loop_events, fs')"
    by (cases "process_loop (filesystem w) a venvs")
  have "Console Dry_run_note \<notin> set scan_events"
    using scan_no_note [of w vb "root_dir a" "older_than a"] s by simp
  moreover have "Console Dry_run_note \<notin> set loop_events"
    using process_loop_no_note [of "filesystem w" a venvs] l by simp
  ultimately show ?thesis
    using s l by (auto simp: process_virtualenvs_def Let_def)
qed

text \<open>
  Claim C2, as amended. When the age threshold is set to a value other than 0, the
  remove flag is not given and the scan returns at least one environment, the last line
  that processing prints is the dry-run note.
\<close>

theorem dry_run_note_printed:
  assumes "older_than a = Some n" and "n \<noteq> 0" and "\<not> remove a"
    and "fst (scan_virtualenvs w vb (root_dir a) (older_than a)) \<noteq> []"
  shows "\<exists>evs. fst (process_virtualenvs w vb a) = evs @ [Console Dry_run_note]"
proof -
  obtain venvs scan_events
    where s: "scan_virtualenvs w vb (root_dir a) (older_than a) = (venvs, scan_events)"
    by (cases "scan_virtualenvs w vb (root_dir a) (older_than a)")
  obtain loop_events fs' where l: "process_loop (filesystem w) a venvs = (loop_events, fs')"
    by (cases "process_loop (filesystem w) a venvs")
  from assms s have ne: "venvs \<noteq> []" by simp
  have "fst (process_virtualenvs w vb a) =
        (scan_events @ loop_events @
           [Console (Total_virtualenvs (length venvs)),
            Console (Broken_virtualenvs (length (filter is_broken venvs))),
            Console (Total_storage (sum_list (map size_mb venvs)))]) @ [Console Dry_run_note]"
    using assms(1-3) s l ne by (simp add: process_virtualenvs_def Let_def truthy_def)
  then show ?thesis by blast
qed

theorem dry_run_note_printed_witness:
  "older_than example_args = Some 30 \<and> (30::int) \<noteq> 0 \<and> \<not> remove example_args
   \<and> fst (scan_virtualenvs example_world False (root_dir example_args) (older_than example_args))
        \<noteq> []
   \<and> (\<exists>evs. fst (process_virtualenvs example_world False example_args)
               = evs @ [Console Dry_run_note])"
proof -
  have a: "older_than example_args = Some 30" and r: "\<not> remove example_args"
    and d: "root_dir example_args = [''work'']"
    by (simp_all add: example_args_def)
  have s: "fst (scan_virtualenvs example_world False (root_dir example_args)
                  (older_than example_args)) \<noteq> []"
    by (simp add: a d example_scan_older_than_30)
  have z: "(30::int) \<noteq> 0" by simp
  from dry_run_note_printed [OF a z r s] a r s show ?thesis by simp
qed

text \<open>
  Claim C2 as stated fails: with \<^verbatim>\<open>--older-than 30\<close>, no \<^verbatim>\<open>--remove\<close> and no environment
  under the root, processing prints that none was found and returns (lines 212-214);
  the dry-run note is not printed.
\<close>

theorem dry_run_note_missing_when_nothing_found:
  "older_than example_args = Some 30 \<and> \<not> remove example_args
   \<and> fst (process_virtualenvs empty_world False example_args) = [Console No_virtualenvs_found]
   \<and> Console Dry_run_note \<notin> set (fst (process_virtualenvs empty_world False example_args))"
proof -
  have a: "older_than example_args = Some 30" and r: "\<not> remove example_args"
    and d: "root_dir example_args = [''work'']"
    by (simp_all add: example_args_def)
  have "fst (process_virtualenvs empty_world False example_args) = [Console No_virtualenvs_found]"
    by (simp add: process_virtualenvs_def a d empty_scan)
  with a r show ?thesis by simp
qed


end
